theory Spec2Isabelle
  imports Main "HOL-Library.Word"
begin

section \<open>The path trie\<close>

text \<open>
  Modelled from the spec: the package \<^verbatim>\<open>github.com/nickstenning/trie\<close> that
  \<^verbatim>\<open>router.go\<close> imports is not among the sources. Its description (section 4.1): a
  node is an unordered map from segment string to child node plus an optional value slot;
  \<^verbatim>\<open>Set\<close> walks the tree creating missing nodes and overwrites any prior value at the
  terminal node; \<^verbatim>\<open>Get\<close> returns the value at the terminal node, if any; keys of
  length 0 address the root; segment equality is byte-exact string equality.
\<close>

datatype 'v Trie = Trie (Entry: "'v option") (Children: "string \<Rightarrow> 'v Trie option")

definition NewTrie :: "'v Trie" where
  "NewTrie = Trie None (\<lambda>_. None)"

fun Trie_Get :: "'v Trie \<Rightarrow> string list \<Rightarrow> 'v option" where
  "Trie_Get (Trie e cs) [] = e"
| "Trie_Get (Trie e cs) (key # newpath) =
     (case cs key of None \<Rightarrow> None | Some res \<Rightarrow> Trie_Get res newpath)"

fun Trie_Set :: "'v Trie \<Rightarrow> string list \<Rightarrow> 'v \<Rightarrow> 'v Trie" where
  "Trie_Set (Trie e cs) [] val = Trie (Some val) cs"
| "Trie_Set (Trie e cs) (key # newpath) val =
     Trie e (cs(key \<mapsto>
       Trie_Set (case cs key of None \<Rightarrow> NewTrie | Some child \<Rightarrow> child) newpath val))"

section \<open>The multiplexer of \<^verbatim>\<open>router.go\<close> (package proxymux)\<close>

subsection \<open>splitpath\<close>

text \<open>
  \<^verbatim>\<open>strings.Split(s, "/")\<close> of the Go standard library: the substrings between the
  slashes, one more than there are slashes, empty substrings included.
\<close>

fun Split :: "string \<Rightarrow> string list" where
  "Split [] = [[]]"
| "Split (c # cs) =
     (if c = CHR ''/'' then [] # Split cs
      else (c # hd (Split cs)) # tl (Split cs))"

text \<open>The loop \<^verbatim>\<open>for strings.HasPrefix(path, "/") { path = path[1:] }\<close>.\<close>

fun strip_slashes :: "string \<Rightarrow> string" where
  "strip_slashes [] = []"
| "strip_slashes (c # cs) = (if c = CHR ''/'' then strip_slashes cs else c # cs)"

definition splitpath :: "string \<Rightarrow> string list" where
  "splitpath path =
     (let path' = strip_slashes path in
      if path' = [] then [] else Split path')"

subsection \<open>Entries and the Mux\<close>

text \<open>
  Go's \<^verbatim>\<open>int\<close> is taken at its width on 64-bit targets. The zero value
  \<^verbatim>\<open>muxEntry{}\<close> has \<^verbatim>\<open>prefix = false\<close> and \<^verbatim>\<open>backendId = 0\<close>.
\<close>

record muxEntry =
  prefix :: bool
  backendId :: "64 word"

definition muxEntry_zero :: muxEntry where
  "muxEntry_zero = \<lparr>prefix = False, backendId = 0\<rparr>"

text \<open>
  The trie stores \<^verbatim>\<open>interface{}\<close> values; \<^verbatim>\<open>findlongestmatch\<close> downcasts with
  \<^verbatim>\<open>val.(muxEntry)\<close>. A value of any other dynamic type is \<open>OtherVal\<close>.
\<close>

datatype ifaceval = MuxEntryVal muxEntry | OtherVal

text \<open>
  A backend is the reverse proxy \<^verbatim>\<open>httputil.NewSingleHostReverseProxy(target)\<close>; it
  is represented by its target \<open>'u\<close>, the parsed URL. The lock \<^verbatim>\<open>mu\<close> is left out:
  the model is sequential.
\<close>

record 'u Mux =
  nextBackendId :: "64 word"
  backends :: "64 word \<rightharpoonup> 'u"
  trie :: "ifaceval Trie"

definition NewMux :: "'u Mux" where
  "NewMux = \<lparr>nextBackendId = 0, backends = Map.empty, trie = NewTrie\<rparr>"

subsection \<open>findlongestmatch\<close>

text \<open>
  The loop \<^verbatim>\<open>for len(copypath) >= 0 { ... }\<close>, one call per iteration:
  \<^verbatim>\<open>continue\<close> is the recursive call on \<^verbatim>\<open>copypath[:len(copypath)-1]\<close>,
  \<^verbatim>\<open>break\<close> and the exit of the loop lead to \<^verbatim>\<open>return muxEntry{}, false\<close>.
  The guard is kept as the source writes it. A run that never leaves the loop is the
  value \<open>None\<close>.
\<close>

partial_function (option) findlongestmatch_loop ::
  "ifaceval Trie \<Rightarrow> string list \<Rightarrow> string list \<Rightarrow> (muxEntry \<times> bool) option" where
  "findlongestmatch_loop t origpath copypath =
     (if (0::int) \<le> int (length copypath) then
        (case Trie_Get t copypath of
           None \<Rightarrow>
             if length copypath > 0
             then findlongestmatch_loop t origpath (butlast copypath)
             else Some (muxEntry_zero, False)
         | Some val \<Rightarrow>
             (case val of
                OtherVal \<Rightarrow> Some (muxEntry_zero, False)
              | MuxEntryVal ent \<Rightarrow>
                  if length copypath = length origpath then Some (ent, True)
                  else if prefix ent then Some (ent, True)
                  else if length copypath > 0
                  then findlongestmatch_loop t origpath (butlast copypath)
                  else Some (muxEntry_zero, False)))
      else Some (muxEntry_zero, False))"

declare findlongestmatch_loop.simps [code]

definition findlongestmatch :: "ifaceval Trie \<Rightarrow> string \<Rightarrow> (muxEntry \<times> bool) option" where
  "findlongestmatch t path =
     (let origpath = splitpath path; copypath = origpath
      in findlongestmatch_loop t origpath copypath)"

subsection \<open>The operations of the Mux\<close>

definition AddBackend :: "'u Mux \<Rightarrow> 'u \<Rightarrow> 64 word \<times> 'u Mux" where
  "AddBackend mux target =
     (let bid = nextBackendId mux
      in (bid,
          mux\<lparr>backends := (backends mux)(bid \<mapsto> target),
              nextBackendId := nextBackendId mux + 1\<rparr>))"

definition GetBackend :: "'u Mux \<Rightarrow> 64 word \<Rightarrow> 'u option" where
  "GetBackend mux bid = backends mux bid"

definition Lookup :: "'u Mux \<Rightarrow> string \<Rightarrow> (64 word \<times> bool) option" where
  "Lookup mux path =
     (case findlongestmatch (trie mux) path of
        None \<Rightarrow> None
      | Some (entry, ok) \<Rightarrow> Some (backendId entry, ok))"

definition Register :: "'u Mux \<Rightarrow> string \<Rightarrow> bool \<Rightarrow> 64 word \<Rightarrow> 'u Mux" where
  "Register mux path pfx bid =
     mux\<lparr>trie := Trie_Set (trie mux) (splitpath path)
                    (MuxEntryVal \<lparr>prefix = pfx, backendId = bid\<rparr>)\<rparr>"

text \<open>
  What a handler writes: \<^verbatim>\<open>http.NotFound\<close> replies with status 404; otherwise the
  request is handed to the reverse proxy of a backend.
\<close>

datatype 'u Response = StatusCode nat | ProxyServeHTTP 'u

definition NotFound :: "'u Response" where
  "NotFound = StatusCode 404"

definition ServeHTTP :: "'u Mux \<Rightarrow> string \<Rightarrow> 'u Response option" where
  "ServeHTTP mux path =
     (case Lookup mux path of
        None \<Rightarrow> None
      | Some (bid, ok) \<Rightarrow>
          if \<not> ok then Some NotFound
          else (case GetBackend mux bid of
                  None \<Rightarrow> Some NotFound
                | Some proxy \<Rightarrow> Some (ProxyServeHTTP proxy)))"

section \<open>The Router of \<^verbatim>\<open>router.go\<close> (package main)\<close>

subsection \<open>Storage\<close>

text \<open>
  \<^verbatim>\<open>Storage\<close> and \<^verbatim>\<open>Iterator\<close> are interfaces: what their methods return is
  decided by the store. A storage is modelled by what it answers during one reload:
  \<open>Open\<close> is the error of \<^verbatim>\<open>Open()\<close>, if any; \<open>Applications\<close> and \<open>Routes\<close> are
  the error or the iterator of the two calls. An iterator is the list of records that its
  successive \<^verbatim>\<open>Next\<close> calls bind before \<^verbatim>\<open>Next\<close> returns false, and the error that
  \<^verbatim>\<open>Err()\<close> reports afterwards, if any. \<^verbatim>\<open>Close()\<close> returns nothing.
\<close>

type_synonym error = string

record Application =
  ApplicationId :: string
  BackendURL :: string

text \<open>The field \<^verbatim>\<open>ApplicationId\<close> of \<^verbatim>\<open>Route\<close> is \<open>RouteApplicationId\<close> here.\<close>

record Route =
  IncomingPath :: string
  RouteApplicationId :: string
  RouteType :: string

record 'a Iterator =
  Next :: "'a list"
  Err :: "error option"

record Storage =
  Open :: "error option"
  Applications :: "error + Application Iterator"
  Routes :: "error + Route Iterator"

subsection \<open>loadApplications and loadRoutes\<close>

text \<open>
  \<^verbatim>\<open>url.Parse\<close> of the Go standard library is the parameter \<open>Parse\<close>. A panic is the
  result \<open>Inl\<close>. The handler stored in \<^verbatim>\<open>apps\<close> is the reverse proxy of the parsed URL,
  represented by that URL.
\<close>

fun loadApplications_loop ::
  "(string \<Rightarrow> error + 'u) \<Rightarrow> Application list \<Rightarrow> (string \<rightharpoonup> 'u) \<Rightarrow> (string \<rightharpoonup> 'u)" where
  "loadApplications_loop Parse [] apps = apps"
| "loadApplications_loop Parse (app # rest) apps =
     (case Parse (BackendURL app) of
        Inl err \<Rightarrow> loadApplications_loop Parse rest apps
      | Inr backendUrl \<Rightarrow>
          loadApplications_loop Parse rest (apps(ApplicationId app \<mapsto> backendUrl)))"

definition loadApplications ::
  "(string \<Rightarrow> error + 'u) \<Rightarrow> Storage \<Rightarrow> error + (string \<rightharpoonup> 'u)" where
  "loadApplications Parse stor =
     (case Applications stor of
        Inl err \<Rightarrow> Inl err
      | Inr iter \<Rightarrow>
          (let apps = loadApplications_loop Parse (Next iter) Map.empty
           in case Err iter of Some err \<Rightarrow> Inl err | None \<Rightarrow> Inr apps))"

text \<open>
  The package \<^verbatim>\<open>triemux\<close> whose Mux the Router holds is not among the sources. Its
  constructor \<^verbatim>\<open>NewMux\<close> and its methods \<^verbatim>\<open>Handle\<close> and \<^verbatim>\<open>ServeHTTP\<close> are parameters
  (\<open>newMux\<close>, \<open>Handle\<close>, \<open>serveHTTP\<close>) over a type \<open>'m\<close> of Mux values. The Router
  holds a pointer: muxes live in a store, a list of Mux values addressed by position, and
  \<^verbatim>\<open>mux.Handle(...)\<close> updates the Mux at the address it is called on. A panic of
  \<^verbatim>\<open>loadRoutes\<close> leaves the store as it is at that moment and is the second component
  of the result. A pointer of the source always refers to an allocated Mux
  (\<^verbatim>\<open>NewRouter\<close> and \<^verbatim>\<open>ReloadRoutes\<close> allocate before they assign), so the
  properties below are stated for addresses inside the store.
\<close>

fun loadRoutes_loop ::
  "('m \<Rightarrow> string \<Rightarrow> bool \<Rightarrow> 'u \<Rightarrow> 'm) \<Rightarrow> Route list \<Rightarrow> nat \<Rightarrow> (string \<rightharpoonup> 'u) \<Rightarrow>
     'm list \<Rightarrow> 'm list" where
  "loadRoutes_loop Handle [] mux apps h = h"
| "loadRoutes_loop Handle (route # rest) mux apps h =
     (case apps (RouteApplicationId route) of
        None \<Rightarrow> loadRoutes_loop Handle rest mux apps h
      | Some handler \<Rightarrow>
          (let pfx = (RouteType route = ''prefix'')
           in loadRoutes_loop Handle rest mux apps
                (h[mux := Handle (h ! mux) (IncomingPath route) pfx handler])))"

definition loadRoutes ::
  "('m \<Rightarrow> string \<Rightarrow> bool \<Rightarrow> 'u \<Rightarrow> 'm) \<Rightarrow> Storage \<Rightarrow> nat \<Rightarrow> (string \<rightharpoonup> 'u) \<Rightarrow>
     'm list \<Rightarrow> 'm list \<times> error option" where
  "loadRoutes Handle stor mux apps h =
     (case Routes stor of
        Inl err \<Rightarrow> (h, Some err)
      | Inr iter \<Rightarrow>
          (let h' = loadRoutes_loop Handle (Next iter) mux apps h
           in case Err iter of Some err \<Rightarrow> (h', Some err) | None \<Rightarrow> (h', None)))"

subsection \<open>The Router\<close>

record Router =
  mux :: nat
  stor :: Storage

definition NewRouter :: "'m \<Rightarrow> Storage \<Rightarrow> 'm list \<Rightarrow> Router \<times> 'm list" where
  "NewRouter newMux s h = (\<lparr>mux = length h, stor = s\<rparr>, h @ [newMux])"

definition Router_ServeHTTP ::
  "('m \<Rightarrow> string \<Rightarrow> 'r option) \<Rightarrow> Router \<Rightarrow> 'm list \<Rightarrow> string \<Rightarrow> 'r option" where
  "Router_ServeHTTP serveHTTP rt h path = serveHTTP (h ! mux rt) path"

text \<open>
  \<^verbatim>\<open>ReloadRoutes\<close>: every panic of the body is caught by the deferred function, which
  assigns \<^verbatim>\<open>rt.mux = oldmux\<close>; the only other assignment to \<^verbatim>\<open>rt.mux\<close> is the last
  statement but one of the body.
\<close>

definition ReloadRoutes ::
  "'m \<Rightarrow> ('m \<Rightarrow> string \<Rightarrow> bool \<Rightarrow> 'u \<Rightarrow> 'm) \<Rightarrow> (string \<Rightarrow> error + 'u) \<Rightarrow>
     Router \<Rightarrow> 'm list \<Rightarrow> Router \<times> 'm list" where
  "ReloadRoutes newMux Handle Parse rt h =
     (let oldmux = mux rt in
      case Open (stor rt) of
        Some err \<Rightarrow> (rt\<lparr>mux := oldmux\<rparr>, h)
      | None \<Rightarrow>
          (let newmux = length h; h1 = h @ [newMux] in
           case loadApplications Parse (stor rt) of
             Inl err \<Rightarrow> (rt\<lparr>mux := oldmux\<rparr>, h1)
           | Inr apps \<Rightarrow>
               (case loadRoutes Handle (stor rt) newmux apps h1 of
                  (h2, Some err) \<Rightarrow> (rt\<lparr>mux := oldmux\<rparr>, h2)
                | (h2, None) \<Rightarrow> (rt\<lparr>mux := newmux\<rparr>, h2))))"

section \<open>Notions used to state the properties\<close>

text \<open>
  The left-anchored prefixes of a segment sequence, from the sequence itself down to the
  empty sequence.
\<close>

definition ancestors :: "'a list \<Rightarrow> 'a list list" where
  "ancestors xs = map (\<lambda>i. take i xs) (rev [0..<Suc (length xs)])"

text \<open>\<open>is_ancestor k s\<close>: the key \<open>k\<close> is a left-anchored prefix of \<open>s\<close> (or \<open>s\<close> itself).\<close>

definition is_ancestor :: "'a list \<Rightarrow> 'a list \<Rightarrow> bool" where
  "is_ancestor k s = (take (length k) s = k)"

text \<open>
  The longest-match policy in the words of the specification (section 4.2): the candidate
  keys are tried in the order given; a value at the full key (of length \<open>n\<close>) is returned
  whatever its flag, a value at a shorter key only if its flag is set; the first
  acceptance wins, and when no candidate is accepted the result is absent. A stored value
  that is not a mux entry ends the search, as the downcast of the source does.
\<close>

fun first_accept :: "ifaceval Trie \<Rightarrow> nat \<Rightarrow> string list list \<Rightarrow> muxEntry \<times> bool" where
  "first_accept t n [] = (muxEntry_zero, False)"
| "first_accept t n (k # ks) =
     (case Trie_Get t k of
        None \<Rightarrow> first_accept t n ks
      | Some OtherVal \<Rightarrow> (muxEntry_zero, False)
      | Some (MuxEntryVal ent) \<Rightarrow>
          if length k = n \<or> prefix ent then (ent, True) else first_accept t n ks)"

text \<open>
  The invariant of the trie of a Mux: every stored value is a mux entry. It holds of
  \<open>NewMux\<close> and is kept by \<open>Register\<close> and \<open>AddBackend\<close>, the only writers.
\<close>

definition only_muxEntries :: "ifaceval Trie \<Rightarrow> bool" where
  "only_muxEntries t = (\<forall>k. Trie_Get t k \<noteq> Some OtherVal)"

definition prefix_route_at :: "ifaceval Trie \<Rightarrow> string list \<Rightarrow> bool" where
  "prefix_route_at t k =
     (case Trie_Get t k of Some (MuxEntryVal e) \<Rightarrow> prefix e | _ \<Rightarrow> False)"

text \<open>
  A terminal error of a reload: \<^verbatim>\<open>Open\<close> fails, \<^verbatim>\<open>Applications()\<close> or
  \<^verbatim>\<open>Routes()\<close> returns an error, or an iterator reports an error after draining.
\<close>

definition terminal_error :: "Storage \<Rightarrow> bool" where
  "terminal_error s =
     (Open s \<noteq> None \<or>
      (case Applications s of Inl err \<Rightarrow> True | Inr iter \<Rightarrow> Err iter \<noteq> None) \<or>
      (case Routes s of Inl err \<Rightarrow> True | Inr iter \<Rightarrow> Err iter \<noteq> None))"

text \<open>A route is valid when its application identifier has a handler in \<open>apps\<close>.\<close>

definition known_application :: "(string \<rightharpoonup> 'u) \<Rightarrow> Route \<Rightarrow> bool" where
  "known_application apps route = (apps (RouteApplicationId route) \<noteq> None)"

text \<open>The one call \<^verbatim>\<open>mux.Handle(route.IncomingPath, prefix, handler)\<close> for a valid route.\<close>

definition register_route ::
  "('m \<Rightarrow> string \<Rightarrow> bool \<Rightarrow> 'u \<Rightarrow> 'm) \<Rightarrow> (string \<rightharpoonup> 'u) \<Rightarrow> 'm \<Rightarrow> Route \<Rightarrow> 'm" where
  "register_route Handle apps m route =
     Handle m (IncomingPath route) (RouteType route = ''prefix'')
       (the (apps (RouteApplicationId route)))"

text \<open>
  A run of reloads, one after the other. The Router keeps the same storage object; what
  the store answers differs from one reload to the next, so the answers of each reload
  are put in place before it starts.
\<close>

fun reload_each ::
  "'m \<Rightarrow> ('m \<Rightarrow> string \<Rightarrow> bool \<Rightarrow> 'u \<Rightarrow> 'm) \<Rightarrow> (string \<Rightarrow> error + 'u) \<Rightarrow>
     Storage list \<Rightarrow> Router \<times> 'm list \<Rightarrow> Router \<times> 'm list" where
  "reload_each newMux Handle Parse [] st = st"
| "reload_each newMux Handle Parse (s # ss) st =
     reload_each newMux Handle Parse ss
       (ReloadRoutes newMux Handle Parse ((fst st)\<lparr>stor := s\<rparr>) (snd st))"

subsection \<open>Data of the examples\<close>

text \<open>
  In the examples the absent Mux of the Router is a list of the \<^verbatim>\<open>Handle\<close> calls made
  on it, and a URL parses unless it is \<^verbatim>\<open>://bad\<close>.
\<close>

definition Handle_log ::
  "(string \<times> bool \<times> string) list \<Rightarrow> string \<Rightarrow> bool \<Rightarrow> string \<Rightarrow> (string \<times> bool \<times> string) list" where
  "Handle_log m path pfx handler = m @ [(path, pfx, handler)]"

definition Parse_example :: "string \<Rightarrow> error + string" where
  "Parse_example s = (if s = ''://bad'' then Inl ''missing protocol scheme'' else Inr s)"

text \<open>Scenario S2: prefix routes at \<^verbatim>\<open>/a\<close> and \<^verbatim>\<open>/a/b\<close>.\<close>

definition S2_mux :: "string Mux" where
  "S2_mux = Register (Register NewMux ''/a'' True 1) ''/a/b'' True 2"

text \<open>Scenario S5: the first application has a malformed backend URL.\<close>

definition S5_apps :: "Application Iterator" where
  "S5_apps = \<lparr>Next = [\<lparr>ApplicationId = ''A'', BackendURL = ''://bad''\<rparr>,
                       \<lparr>ApplicationId = ''B'', BackendURL = ''http://b''\<rparr>],
              Err = None\<rparr>"

definition S5_routes :: "Route Iterator" where
  "S5_routes = \<lparr>Next = [\<lparr>IncomingPath = ''/x'', RouteApplicationId = ''A'', RouteType = ''exact''\<rparr>,
                         \<lparr>IncomingPath = ''/y'', RouteApplicationId = ''B'', RouteType = ''exact''\<rparr>],
                Err = None\<rparr>"

definition S5_storage :: Storage where
  "S5_storage = \<lparr>Open = None, Applications = Inr S5_apps, Routes = Inr S5_routes\<rparr>"

text \<open>Scenario S6: the routes iterator fails after yielding one route.\<close>

definition S6_storage :: Storage where
  "S6_storage =
     \<lparr>Open = None,
      Applications = Inr \<lparr>Next = [\<lparr>ApplicationId = ''A'', BackendURL = ''http://a''\<rparr>], Err = None\<rparr>,
      Routes = Inr \<lparr>Next = [\<lparr>IncomingPath = ''/z'', RouteApplicationId = ''A'',
                              RouteType = ''exact''\<rparr>],
                    Err = Some ''cursor failed''\<rparr>\<rparr>"



section \<open>The trie: what \<open>Trie_Get\<close> sees after \<open>Trie_Set\<close>\<close>

lemma Trie_Get_NewTrie: "Trie_Get NewTrie k = None"
  by (cases k) (simp_all add: NewTrie_def)

lemma Trie_Get_Set:
  "Trie_Get (Trie_Set t k v) k' = (if k' = k then Some v else Trie_Get t k')"
proof (induction t k v arbitrary: k' rule: Trie_Set.induct)
  case (1 e cs val)
  then show ?case by (cases k') simp_all
next
  case (2 e cs key newpath val)
  show ?case
  proof (cases k')
    case Nil
    then show ?thesis by simp
  next
    case (Cons a as)
    then show ?thesis using 2
      by (auto simp: Trie_Get_NewTrie split: option.splits)
  qed
qed

lemma only_muxEntries_NewTrie: "only_muxEntries NewTrie"
  by (simp add: only_muxEntries_def Trie_Get_NewTrie)

lemma only_muxEntries_Set:
  "only_muxEntries t \<Longrightarrow> only_muxEntries (Trie_Set t k (MuxEntryVal e))"
  by (simp add: only_muxEntries_def Trie_Get_Set)

lemma only_muxEntries_NewMux: "only_muxEntries (trie NewMux)"
  by (simp add: NewMux_def only_muxEntries_NewTrie)

lemma only_muxEntries_Register:
  "only_muxEntries (trie m) \<Longrightarrow> only_muxEntries (trie (Register m p pfx b))"
  by (simp add: Register_def only_muxEntries_Set)

lemma only_muxEntries_AddBackend:
  "only_muxEntries (trie m) \<Longrightarrow> only_muxEntries (trie (snd (AddBackend m u)))"
  by (simp add: AddBackend_def Let_def)

section \<open>The search loop\<close>

lemma ancestors_Nil: "ancestors [] = [[]]"
  by (simp add: ancestors_def)

lemma ancestors_snoc: "ancestors (xs @ [x]) = (xs @ [x]) # ancestors xs"
  by (simp add: ancestors_def)

lemma ancestors_unfold:
  "ancestors xs = xs # (if xs = [] then [] else ancestors (butlast xs))"
  by (cases xs rule: rev_cases) (simp_all add: ancestors_Nil ancestors_snoc)

lemma set_ancestors: "k \<in> set (ancestors s) \<Longrightarrow> is_ancestor k s"
  by (auto simp: ancestors_def is_ancestor_def min_def)

text \<open>
  The loop returns on every trie and every path: by induction on the path from its end,
  each iteration either returns or goes on with one segment less, and the iteration on
  the empty sequence returns.
\<close>

lemma findlongestmatch_loop_eq:
  "findlongestmatch_loop t orig cp = Some (first_accept t (length orig) (ancestors cp))"
proof (induction cp rule: rev_induct)
  case Nil
  show ?case
    by (subst findlongestmatch_loop.simps)
       (simp add: ancestors_Nil split: option.splits ifaceval.splits)
next
  case (snoc x xs)
  show ?case
    by (subst findlongestmatch_loop.simps)
       (simp add: ancestors_snoc snoc split: option.splits ifaceval.splits)
qed

lemma findlongestmatch_eq:
  "findlongestmatch t path =
     Some (first_accept t (length (splitpath path)) (ancestors (splitpath path)))"
  by (simp add: findlongestmatch_def Let_def findlongestmatch_loop_eq)

lemma findlongestmatch_exact:
  "Trie_Get t (splitpath P) = Some (MuxEntryVal e) \<Longrightarrow> findlongestmatch t P = Some (e, True)"
  by (subst findlongestmatch_eq, subst ancestors_unfold) simp

lemma first_accept_pass:
  "k \<noteq> [] \<Longrightarrow>
   Trie_Get t k = None \<or>
     (\<exists>e'. Trie_Get t k = Some (MuxEntryVal e') \<and> \<not> prefix e' \<and> length k \<noteq> n) \<Longrightarrow>
   first_accept t n (ancestors k) = first_accept t n (ancestors (butlast k))"
  by (subst ancestors_unfold) auto

lemma first_accept_take:
  assumes "m \<le> j" "j \<le> length S"
    and "Trie_Get t (take m S) = Some (MuxEntryVal e)" "prefix e"
    and "\<And>i. m < i \<Longrightarrow> i \<le> j \<Longrightarrow>
           Trie_Get t (take i S) = None \<or>
           (\<exists>e'. Trie_Get t (take i S) = Some (MuxEntryVal e') \<and> \<not> prefix e' \<and> i \<noteq> n)"
  shows "first_accept t n (ancestors (take j S)) = (e, True)"
  using assms(1,2,5)
proof (induction j)
  case 0
  then show ?case using assms(3,4) by (subst ancestors_unfold) simp
next
  case (Suc j)
  show ?case
  proof (cases "m = Suc j")
    case True
    then show ?thesis using assms(3,4) by (subst ancestors_unfold) simp
  next
    case False
    then have mj: "m \<le> j" "m < Suc j" using Suc.prems by simp_all
    have ne: "take (Suc j) S \<noteq> []" using Suc.prems by auto
    have bl: "butlast (take (Suc j) S) = take j S"
      using Suc.prems by (simp add: butlast_take)
    have len: "length (take (Suc j) S) = Suc j" using Suc.prems by simp
    have IH: "first_accept t n (ancestors (take j S)) = (e, True)"
      using Suc.IH mj Suc.prems by simp
    from Suc.prems(3)[OF mj(2)] have
      "Trie_Get t (take (Suc j) S) = None \<or>
        (\<exists>e'. Trie_Get t (take (Suc j) S) = Some (MuxEntryVal e') \<and> \<not> prefix e' \<and> Suc j \<noteq> n)"
      by simp
    then have "Trie_Get t (take (Suc j) S) = None \<or>
        (\<exists>e'. Trie_Get t (take (Suc j) S) = Some (MuxEntryVal e') \<and> \<not> prefix e' \<and>
           length (take (Suc j) S) \<noteq> n)"
      unfolding len .
    from first_accept_pass[OF ne this] show ?thesis
      unfolding bl IH .
  qed
qed

lemma first_accept_cong:
  "(\<And>k. k \<in> set ks \<Longrightarrow>
      Trie_Get t' k = Trie_Get t k \<or>
      (length k \<noteq> n \<and> \<not> prefix_route_at t k \<and> \<not> prefix_route_at t' k \<and>
       Trie_Get t k \<noteq> Some OtherVal \<and> Trie_Get t' k \<noteq> Some OtherVal)) \<Longrightarrow>
   first_accept t' n ks = first_accept t n ks"
proof (induction ks)
  case Nil
  show ?case by simp
next
  case (Cons k ks)
  have IH: "first_accept t' n ks = first_accept t n ks"
    using Cons by simp
  have "Trie_Get t' k = Trie_Get t k \<or>
      (length k \<noteq> n \<and> \<not> prefix_route_at t k \<and> \<not> prefix_route_at t' k \<and>
       Trie_Get t k \<noteq> Some OtherVal \<and> Trie_Get t' k \<noteq> Some OtherVal)"
    using Cons.prems by simp
  then show ?case
    by (auto simp: IH prefix_route_at_def split: option.splits ifaceval.splits)
qed

lemma first_accept_miss: "first_accept t n ks = (e, False) \<Longrightarrow> e = muxEntry_zero"
  by (induction ks) (auto split: option.splits ifaceval.splits if_splits)

lemma splitpath_slash: "splitpath (CHR ''/'' # P) = splitpath P"
  by (simp add: splitpath_def)

text \<open>Evaluation of the examples.\<close>

lemmas example_simps =
  Lookup_def findlongestmatch_eq Register_def NewMux_def Trie_Get_Set Trie_Get_NewTrie
  splitpath_def ancestors_def muxEntry_zero_def S2_mux_def

section \<open>The longest-match policy\<close>

text \<open>
  C1. Longest prefix wins. Let the trie of a Mux (all its values are mux entries) hold no
  exact entry at the segment sequence of the request path \<open>R\<close>, and let \<open>k\<close> be an
  ancestor of that sequence holding a prefix route \<open>e\<close> such that no ancestor holding a
  prefix route has more segments than \<open>k\<close>. Then \<open>findlongestmatch\<close> returns \<open>e\<close>, found.
\<close>

theorem longest_prefix_wins:
  assumes inv: "only_muxEntries t"
    and noexact: "\<forall>e'. Trie_Get t (splitpath R) = Some (MuxEntryVal e') \<longrightarrow> prefix e'"
    and anc: "is_ancestor k (splitpath R)"
    and ent: "Trie_Get t k = Some (MuxEntryVal e)" "prefix e"
    and longest: "\<forall>k' e'. is_ancestor k' (splitpath R) \<and>
                   Trie_Get t k' = Some (MuxEntryVal e') \<and> prefix e' \<longrightarrow> length k' \<le> length k"
  shows "findlongestmatch t R = Some (e, True)"
proof -
  let ?S = "splitpath R"
  let ?m = "length k"
  have k: "k = take ?m ?S"
    using anc by (simp add: is_ancestor_def)
  have "length (take ?m ?S) = ?m" using k by simp
  then have mle: "?m \<le> length ?S" by simp
  have pass: "Trie_Get t (take i ?S) = None \<or>
           (\<exists>e'. Trie_Get t (take i ?S) = Some (MuxEntryVal e') \<and> \<not> prefix e' \<and> i \<noteq> length ?S)"
    if "?m < i" "i \<le> length ?S" for i
  proof (cases "Trie_Get t (take i ?S)")
    case None
    then show ?thesis by simp
  next
    case (Some v)
    from inv Some obtain e' where e': "v = MuxEntryVal e'"
      by (cases v) (auto simp: only_muxEntries_def)
    have ia: "is_ancestor (take i ?S) ?S" using that by (simp add: is_ancestor_def min_def)
    have np: "\<not> prefix e'"
    proof
      assume "prefix e'"
      with longest ia Some e' have "length (take i ?S) \<le> ?m" by blast
      with that show False by simp
    qed
    have "i \<noteq> length ?S"
    proof
      assume "i = length ?S"
      with Some e' noexact have "prefix e'" by simp
      with np show False by simp
    qed
    with Some e' np show ?thesis by simp
  qed
  have "first_accept t (length ?S) (ancestors (take (length ?S) ?S)) = (e, True)"
    by (rule first_accept_take[where m = ?m]) (use mle k ent pass in auto)
  then show ?thesis by (simp add: findlongestmatch_eq)
qed

text \<open>Scenario S2: the request \<^verbatim>\<open>/a/b/c\<close> is served by the route at \<^verbatim>\<open>/a/b\<close>.\<close>

theorem longest_prefix_wins_witness:
  "only_muxEntries (trie S2_mux) \<and>
   Trie_Get (trie S2_mux) (splitpath ''/a/b/c'') = None \<and>
   is_ancestor [''a'', ''b''] (splitpath ''/a/b/c'') \<and>
   Trie_Get (trie S2_mux) [''a'', ''b''] = Some (MuxEntryVal \<lparr>prefix = True, backendId = 2\<rparr>) \<and>
   findlongestmatch (trie S2_mux) ''/a/b/c'' = Some (\<lparr>prefix = True, backendId = 2\<rparr>, True)"
proof -
  have inv: "only_muxEntries (trie S2_mux)"
    by (simp add: S2_mux_def only_muxEntries_Register only_muxEntries_NewMux)
  have sp: "splitpath ''/a/b/c'' = [''a'', ''b'', ''c'']"
    by (simp add: splitpath_def)
  have noentry: "Trie_Get (trie S2_mux) (splitpath ''/a/b/c'') = None"
    by (simp add: example_simps)
  have anc: "is_ancestor [''a'', ''b''] (splitpath ''/a/b/c'')"
    by (simp add: sp is_ancestor_def)
  have ent: "Trie_Get (trie S2_mux) [''a'', ''b''] = Some (MuxEntryVal \<lparr>prefix = True, backendId = 2\<rparr>)"
    by (simp add: example_simps)
  have longest: "\<forall>k' e'. is_ancestor k' (splitpath ''/a/b/c'') \<and>
      Trie_Get (trie S2_mux) k' = Some (MuxEntryVal e') \<and> prefix e' \<longrightarrow>
      length k' \<le> length [''a'', ''b'']"
    by (auto simp: S2_mux_def Register_def NewMux_def Trie_Get_Set Trie_Get_NewTrie splitpath_def
        split: if_splits)
  have "findlongestmatch (trie S2_mux) ''/a/b/c'' = Some (\<lparr>prefix = True, backendId = 2\<rparr>, True)"
    by (rule longest_prefix_wins [OF inv _ anc ent _ longest]) (simp_all add: noentry)
  with inv noentry anc ent show ?thesis by simp
qed

text \<open>
  C2. An entry stored at the segment sequence of the request path is returned whatever
  its prefix flag. In particular, after a prefix route and then an exact route have been
  registered at \<open>P\<close>, the lookup of \<open>P\<close> gives the backend of the exact route, and the
  request is served by that backend when it exists.
\<close>

theorem exact_entry_returned:
  assumes "Trie_Get (trie m) (splitpath P) = Some (MuxEntryVal e)"
  shows "findlongestmatch (trie m) P = Some (e, True) \<and>
         Lookup m P = Some (backendId e, True) \<and>
         Lookup (Register (Register m P True B) P False A) P = Some (A, True) \<and>
         ServeHTTP (Register (Register m P True B) P False A) P =
           Some (case GetBackend m A of None \<Rightarrow> NotFound | Some proxy \<Rightarrow> ProxyServeHTTP proxy)"
proof -
  have a: "findlongestmatch (trie m) P = Some (e, True)"
    using assms by (rule findlongestmatch_exact)
  have b: "Lookup (Register (Register m P True B) P False A) P = Some (A, True)"
    by (simp add: Lookup_def Register_def findlongestmatch_exact Trie_Get_Set)
  have c: "GetBackend (Register (Register m P True B) P False A) A = GetBackend m A"
    by (simp add: GetBackend_def Register_def)
  show ?thesis
    using a b c by (simp add: Lookup_def ServeHTTP_def split: option.splits)
qed

text \<open>Scenario S2: the request \<^verbatim>\<open>/a\<close> hits the entry at \<^verbatim>\<open>/a\<close>.\<close>

theorem exact_entry_returned_witness:
  "Trie_Get (trie S2_mux) (splitpath ''/a'') = Some (MuxEntryVal \<lparr>prefix = True, backendId = 1\<rparr>) \<and>
   Lookup S2_mux ''/a'' = Some (1, True) \<and>
   Lookup (Register (Register S2_mux ''/a'' True 4) ''/a'' False 3) ''/a'' = Some (3, True)"
proof -
  have h: "Trie_Get (trie S2_mux) (splitpath ''/a'') =
             Some (MuxEntryVal \<lparr>prefix = True, backendId = 1\<rparr>)"
    by (simp add: S2_mux_def Register_def Trie_Get_Set splitpath_def)
  from exact_entry_returned [OF h, of 4 3] h show ?thesis by simp
qed

text \<open>
  C9. \<open>findlongestmatch\<close> returns on every trie and every path, although the guard of its
  loop is always true: its result is that of trying the left-anchored prefixes of the
  segment sequence from the longest to the shortest, the empty sequence included, until
  the first acceptance.
\<close>

theorem findlongestmatch_terminates:
  "findlongestmatch t path =
     Some (first_accept t (length (splitpath path))
            (map (\<lambda>i. take i (splitpath path)) (rev [0..<Suc (length (splitpath path))])))"
  using findlongestmatch_eq [of t path] by (simp add: ancestors_def)

text \<open>A request that no route matches is tried down to the root and answered absent.\<close>

theorem findlongestmatch_terminates_witness:
  "findlongestmatch (trie S2_mux) ''/x/y/z'' = Some (muxEntry_zero, False)"
  using findlongestmatch_terminates [of "trie S2_mux" "''/x/y/z''"]
  by (simp add: S2_mux_def Register_def NewMux_def Trie_Get_Set Trie_Get_NewTrie splitpath_def)


text \<open>
  C7. Leading slashes do not matter: \<^verbatim>\<open>/P\<close>, \<^verbatim>\<open>P\<close> and \<^verbatim>\<open>///P\<close> have the same
  segment sequence, \<^verbatim>\<open>/\<close> and the empty string have the empty one, and registering or
  looking up under any of these spellings gives the same Mux and the same result.
\<close>

theorem splitpath_leading_slashes:
  "splitpath (''/'' @ P) = splitpath P \<and>
   splitpath (''///'' @ P) = splitpath P \<and>
   splitpath ''/'' = [] \<and> splitpath '''' = [] \<and>
   Register m (''/'' @ P) pfx b = Register m P pfx b \<and>
   Register m (''///'' @ P) pfx b = Register m P pfx b \<and>
   Lookup m (''/'' @ P) = Lookup m P \<and>
   Lookup m (''///'' @ P) = Lookup m P"
  by (simp add: splitpath_slash Register_def Lookup_def findlongestmatch_def)
     (simp add: splitpath_def)

theorem splitpath_leading_slashes_witness:
  "splitpath ''/a/b'' = [''a'', ''b''] \<and> splitpath ''///a/b'' = [''a'', ''b''] \<and>
   splitpath ''a/b'' = [''a'', ''b''] \<and>
   Lookup (Register (NewMux :: string Mux) ''///a/b'' False 7) ''a/b'' = Some (7, True) \<and>
   Lookup (Register (NewMux :: string Mux) ''a/b'' False 7) ''/a/b'' = Some (7, True)"
  using splitpath_leading_slashes [of "''a/b''" "NewMux :: string Mux" False 7]
  by (simp add: example_simps)

text \<open>
  C8, as the code has it. Let \<open>R\<close> be a proper descendant of \<open>P\<close>. Registering an exact
  route at \<open>P\<close> in a Mux does not change the lookup result for \<open>R\<close>, provided \<open>P\<close> did not
  hold a prefix route before: \<open>Register\<close> overwrites the entry at \<open>P\<close>, and a prefix route
  that it replaces no longer matches the descendants.
\<close>

theorem exact_route_does_not_shadow:
  assumes inv: "only_muxEntries (trie m)"
    and anc: "is_ancestor (splitpath P) (splitpath R)"
    and proper: "length (splitpath P) < length (splitpath R)"
    and nopfx: "\<not> prefix_route_at (trie m) (splitpath P)"
  shows "Lookup (Register m P False b) R = Lookup m R"
proof -
  let ?t = "trie m"
  let ?t' = "trie (Register m P False b)"
  have "first_accept ?t' (length (splitpath R)) (ancestors (splitpath R)) =
        first_accept ?t (length (splitpath R)) (ancestors (splitpath R))"
  proof (rule first_accept_cong)
    fix k assume "k \<in> set (ancestors (splitpath R))"
    show "Trie_Get ?t' k = Trie_Get ?t k \<or>
      (length k \<noteq> length (splitpath R) \<and> \<not> prefix_route_at ?t k \<and> \<not> prefix_route_at ?t' k \<and>
       Trie_Get ?t k \<noteq> Some OtherVal \<and> Trie_Get ?t' k \<noteq> Some OtherVal)"
    proof (cases "k = splitpath P")
      case True
      then show ?thesis using proper nopfx inv
        by (simp add: Register_def Trie_Get_Set prefix_route_at_def only_muxEntries_def)
    next
      case False
      then show ?thesis by (simp add: Register_def Trie_Get_Set)
    qed
  qed
  then show ?thesis by (simp add: Lookup_def findlongestmatch_eq)
qed

text \<open>
  In scenario S2, an exact route at \<^verbatim>\<open>/a/b/c\<close> leaves the request \<^verbatim>\<open>/a/b/c/d\<close> with
  the prefix route at \<^verbatim>\<open>/a/b\<close>.
\<close>

theorem exact_route_does_not_shadow_witness:
  "only_muxEntries (trie S2_mux) \<and>
   is_ancestor (splitpath ''/a/b/c'') (splitpath ''/a/b/c/d'') \<and>
   length (splitpath ''/a/b/c'') < length (splitpath ''/a/b/c/d'') \<and>
   \<not> prefix_route_at (trie S2_mux) (splitpath ''/a/b/c'') \<and>
   Lookup (Register S2_mux ''/a/b/c'' False 3) ''/a/b/c/d'' = Some (2, True) \<and>
   Lookup S2_mux ''/a/b/c/d'' = Some (2, True)"
proof -
  have inv: "only_muxEntries (trie S2_mux)"
    by (simp add: S2_mux_def only_muxEntries_Register only_muxEntries_NewMux)
  have anc: "is_ancestor (splitpath ''/a/b/c'') (splitpath ''/a/b/c/d'')"
    by (simp add: splitpath_def is_ancestor_def)
  have proper: "length (splitpath ''/a/b/c'') < length (splitpath ''/a/b/c/d'')"
    by (simp add: splitpath_def)
  have nopfx: "\<not> prefix_route_at (trie S2_mux) (splitpath ''/a/b/c'')"
    by (simp add: prefix_route_at_def example_simps)
  have old: "Lookup S2_mux ''/a/b/c/d'' = Some (2, True)"
    by (simp add: example_simps)
  from exact_route_does_not_shadow [OF inv anc proper nopfx, of 3] old inv anc proper nopfx
  show ?thesis by simp
qed

text \<open>
  The claim as stated fails where \<open>P\<close> holds a prefix route: with a prefix route at
  \<^verbatim>\<open>/foo\<close>, the request \<^verbatim>\<open>/foo/bar\<close> is matched; once an exact route is registered at
  \<^verbatim>\<open>/foo\<close>, the same request is a miss.
\<close>

theorem exact_route_overwrites_prefix_counterexample:
  "is_ancestor (splitpath ''/foo'') (splitpath ''/foo/bar'') \<and>
   length (splitpath ''/foo'') < length (splitpath ''/foo/bar'') \<and>
   Lookup (Register (NewMux :: string Mux) ''/foo'' True 1) ''/foo/bar'' = Some (1, True) \<and>
   Lookup (Register (Register (NewMux :: string Mux) ''/foo'' True 1) ''/foo'' False 2) ''/foo/bar''
     = Some (0, False) \<and>
   Lookup (Register (Register (NewMux :: string Mux) ''/foo'' True 1) ''/foo'' False 2) ''/foo/bar''
     \<noteq> Lookup (Register (NewMux :: string Mux) ''/foo'' True 1) ''/foo/bar''"
  by (simp add: example_simps is_ancestor_def)

text \<open>
  C10. A lookup that finds nothing returns the backend id 0 with the flag false. The id 0
  is also the first id that \<open>AddBackend\<close> allocates, so a Mux can answer one path with
  id 0 and flag true and another with id 0 and flag false: only the flag tells a miss
  from a match.
\<close>

theorem lookup_miss_returns_zero_id:
  "(Lookup m path = Some (bid, False) \<longrightarrow> bid = 0) \<and>
   fst (AddBackend NewMux target) = 0 \<and>
   (let (b, m1) = AddBackend NewMux target; m2 = Register m1 ''/a'' False b
    in Lookup m2 ''/a'' = Some (0, True) \<and> Lookup m2 ''/b'' = Some (0, False) \<and>
       GetBackend m2 0 = Some target)"
proof (intro conjI impI)
  assume "Lookup m path = Some (bid, False)"
  then obtain e where
    "first_accept (trie m) (length (splitpath path)) (ancestors (splitpath path)) = (e, False)"
    and "bid = backendId e"
    by (auto simp: Lookup_def findlongestmatch_eq split: prod.splits)
  then show "bid = 0" using first_accept_miss by (fastforce simp: muxEntry_zero_def)
next
  show "fst (AddBackend NewMux target) = 0" by (simp add: AddBackend_def NewMux_def)
next
  show "let (b, m1) = AddBackend NewMux target; m2 = Register m1 ''/a'' False b
    in Lookup m2 ''/a'' = Some (0, True) \<and> Lookup m2 ''/b'' = Some (0, False) \<and>
       GetBackend m2 0 = Some target"
    by (simp add: AddBackend_def GetBackend_def example_simps)
qed

theorem lookup_miss_returns_zero_id_witness:
  "Lookup S2_mux ''/x'' = Some (0, False) \<and>
   fst (AddBackend (NewMux :: string Mux) ''http://a'') = 0"
proof -
  have miss: "Lookup S2_mux ''/x'' = Some (0, False)"
    by (simp add: example_simps)
  from lookup_miss_returns_zero_id [of S2_mux "''/x''" 0 "''http://a''"] miss
  show ?thesis by simp
qed


section \<open>The reload\<close>

lemma loadRoutes_loop_eq:
  "p < length h \<Longrightarrow>
   loadRoutes_loop Handle rs p apps h =
     h[p := foldl (register_route Handle apps) (h ! p) (filter (known_application apps) rs)]"
proof (induction rs arbitrary: h)
  case Nil
  then show ?case by simp
next
  case (Cons r rs)
  then show ?case
    by (cases "apps (RouteApplicationId r)")
       (simp_all add: known_application_def register_route_def)
qed

lemma loadRoutes_loop_fresh:
  "loadRoutes_loop Handle rs (length h) apps (h @ [x]) =
     h @ [foldl (register_route Handle apps) x (filter (known_application apps) rs)]"
  by (simp add: loadRoutes_loop_eq)

lemma loadRoutes_fresh_take:
  "loadRoutes Handle s (length h) apps (h @ [x]) = (h2, r) \<Longrightarrow> take (length h) h2 = h"
  by (auto simp: loadRoutes_def loadRoutes_loop_fresh Let_def split: sum.splits option.splits)

lemma loadRoutes_error:
  "(case Routes s of Inl err \<Rightarrow> True | Inr iter \<Rightarrow> Err iter \<noteq> None) \<Longrightarrow>
   snd (loadRoutes Handle s p apps h) \<noteq> None"
  by (auto simp: loadRoutes_def Let_def split: sum.splits option.splits)

lemma loadApplications_error:
  "(case Applications s of Inl err \<Rightarrow> True | Inr iter \<Rightarrow> Err iter \<noteq> None) \<Longrightarrow>
   \<exists>err. loadApplications Parse s = Inl err"
  by (auto simp: loadApplications_def Let_def split: sum.splits option.splits)








lemmas reload_example_simps =
  S5_storage_def S5_apps_def S5_routes_def S6_storage_def Parse_example_def Handle_log_def
  loadApplications_def known_application_def register_route_def

lemma ReloadRoutes_rollback:
  assumes "terminal_error (stor rt)" and "mux rt < length h"
  shows "mux (fst (ReloadRoutes newMux Handle Parse rt h)) = mux rt \<and>
         snd (ReloadRoutes newMux Handle Parse rt h) ! mux rt = h ! mux rt \<and>
         take (length h) (snd (ReloadRoutes newMux Handle Parse rt h)) = h"
proof (cases "Open (stor rt)")
  case (Some err)
  then show ?thesis by (simp add: ReloadRoutes_def)
next
  case None
  show ?thesis
  proof (cases "loadApplications Parse (stor rt)")
    case (Inl err)
    with None assms(2) show ?thesis by (simp add: ReloadRoutes_def nth_append)
  next
    case (Inr apps)
    obtain h2 r where lr: "loadRoutes Handle (stor rt) (length h) apps (h @ [newMux]) = (h2, r)"
      by (cases "loadRoutes Handle (stor rt) (length h) apps (h @ [newMux])")
    have tk: "take (length h) h2 = h" using lr by (rule loadRoutes_fresh_take)
    have "\<not> (case Applications (stor rt) of Inl err \<Rightarrow> True | Inr iter \<Rightarrow> Err iter \<noteq> None)"
      using loadApplications_error[of "stor rt" Parse] Inr by auto
    with assms(1) None
    have "case Routes (stor rt) of Inl err \<Rightarrow> True | Inr iter \<Rightarrow> Err iter \<noteq> None"
      by (simp add: terminal_error_def)
    from loadRoutes_error[OF this, of Handle "length h" apps "h @ [newMux]"] lr
    obtain err where r: "r = Some err" by auto
    have "h2 ! mux rt = take (length h) h2 ! mux rt" using assms(2) by simp
    then have nth: "h2 ! mux rt = h ! mux rt" using tk by simp
    show ?thesis using None Inr lr r tk nth by (simp add: ReloadRoutes_def)
  qed
qed

lemma failed_reloads_keep_mux:
  "\<forall>s \<in> set ss. terminal_error s \<Longrightarrow> mux (fst st) < length (snd st) \<Longrightarrow>
   mux (fst (reload_each newMux Handle Parse ss st)) = mux (fst st) \<and>
   snd (reload_each newMux Handle Parse ss st) ! mux (fst st) = snd st ! mux (fst st)"
proof (induction ss arbitrary: st)
  case Nil
  then show ?case by simp
next
  case (Cons s ss)
  let ?rt = "(fst st)\<lparr>stor := s\<rparr>"
  let ?st' = "ReloadRoutes newMux Handle Parse ?rt (snd st)"
  have te: "terminal_error (stor ?rt)" using Cons.prems by simp
  have lt: "mux ?rt < length (snd st)" using Cons.prems by simp
  note rb = ReloadRoutes_rollback [OF te lt, of newMux Handle Parse]
  have "length (take (length (snd st)) (snd ?st')) = length (snd st)" using rb by simp
  then have len: "length (snd st) \<le> length (snd ?st')" by simp
  have m: "mux (fst ?st') = mux (fst st)" using rb by simp
  have lt': "mux (fst ?st') < length (snd ?st')" using m lt len by simp
  have "\<forall>s \<in> set ss. terminal_error s" using Cons.prems by simp
  from Cons.IH [OF this lt'] m rb show ?case by simp
qed

text \<open>
  C3. Rollback. When a terminal error occurs during \<open>ReloadRoutes\<close>, the Router points
  afterwards to the Mux it pointed to before, and that Mux, like every Mux that existed
  before the reload, is unchanged: the Mux under construction is never published.
\<close>

theorem reload_rollback:
  assumes "terminal_error (stor rt)" and "mux rt < length h"
  shows "mux (fst (ReloadRoutes newMux Handle Parse rt h)) = mux rt \<and>
         snd (ReloadRoutes newMux Handle Parse rt h) ! mux rt = h ! mux rt \<and>
         take (length h) (snd (ReloadRoutes newMux Handle Parse rt h)) = h"
  using assms by (rule ReloadRoutes_rollback)

text \<open>
  Scenario S6: the routes iterator fails after yielding \<^verbatim>\<open>/z\<close>; the Router keeps its
  Mux, in which \<^verbatim>\<open>/z\<close> was never handled.
\<close>

theorem reload_rollback_witness:
  "terminal_error S6_storage \<and>
   mux (fst (ReloadRoutes [] Handle_log Parse_example \<lparr>mux = 0, stor = S6_storage\<rparr>
               [[(''/a'', True, ''http://a'')]])) = 0 \<and>
   snd (ReloadRoutes [] Handle_log Parse_example \<lparr>mux = 0, stor = S6_storage\<rparr>
               [[(''/a'', True, ''http://a'')]]) ! 0 = [(''/a'', True, ''http://a'')]"
proof -
  have te: "terminal_error (stor \<lparr>mux = 0, stor = S6_storage\<rparr>)"
    by (simp add: terminal_error_def S6_storage_def)
  have lt: "mux \<lparr>mux = 0, stor = S6_storage\<rparr> < length [[(''/a'', True, ''http://a'')]]"
    by simp
  from reload_rollback
         [where newMux = "[]" and Handle = Handle_log and Parse = Parse_example, OF te lt] te
  show ?thesis by simp
qed

text \<open>
  C4, as the code has it. \<open>NewRouter\<close> installs an empty Mux, and \<open>ServeHTTP\<close> of the
  Router delegates to it: as long as no reload has succeeded (none was run, or each one
  met a terminal error), every request is answered 404 Not Found, the answer of a lookup
  miss. (The Mux is the one of \<^verbatim>\<open>router.go\<close>.)
\<close>

theorem uninitialized_router_serves_not_found:
  assumes "\<forall>s \<in> set ss. terminal_error s"
  shows "Router_ServeHTTP ServeHTTP
           (fst (reload_each NewMux Handle Parse ss (NewRouter NewMux s0 h)))
           (snd (reload_each NewMux Handle Parse ss (NewRouter NewMux s0 h))) path
         = Some (StatusCode 404)"
proof -
  let ?st = "NewRouter NewMux s0 h"
  have lt: "mux (fst ?st) < length (snd ?st)" by (simp add: NewRouter_def)
  have nm: "snd ?st ! mux (fst ?st) = NewMux" by (simp add: NewRouter_def)
  from failed_reloads_keep_mux [OF assms lt, of NewMux Handle Parse] nm
  have "snd (reload_each NewMux Handle Parse ss ?st)
          ! mux (fst (reload_each NewMux Handle Parse ss ?st)) = NewMux"
    by simp
  then show ?thesis
    by (simp add: Router_ServeHTTP_def ServeHTTP_def Lookup_def findlongestmatch_eq
      NewMux_def GetBackend_def NotFound_def split: prod.splits)
qed

text \<open>After the failed reload of scenario S6 on a new Router, \<^verbatim>\<open>/z\<close> is answered 404.\<close>

theorem uninitialized_router_serves_not_found_witness:
  "terminal_error S6_storage \<and>
   Router_ServeHTTP ServeHTTP
     (fst (reload_each NewMux (\<lambda>m path pfx u. Register m path pfx 0) Parse_example [S6_storage]
             (NewRouter (NewMux :: string Mux) S6_storage [])))
     (snd (reload_each NewMux (\<lambda>m path pfx u. Register m path pfx 0) Parse_example [S6_storage]
             (NewRouter (NewMux :: string Mux) S6_storage []))) ''/z''
   = Some (StatusCode 404)"
proof -
  have te: "\<forall>s \<in> set [S6_storage]. terminal_error s"
    by (simp add: terminal_error_def S6_storage_def)
  from uninitialized_router_serves_not_found
         [where Handle = "\<lambda>m path pfx u. Register m path pfx 0" and Parse = Parse_example
            and ?s0.0 = S6_storage and h = "[]" and path = "''/z''", OF te] te
  show ?thesis by simp
qed

text \<open>
  The claim as stated fails: a new Router answers \<^verbatim>\<open>/foo\<close> with 404, not with 503.
\<close>

theorem uninitialized_router_counterexample:
  "Router_ServeHTTP ServeHTTP
     (fst (NewRouter (NewMux :: string Mux) S5_storage []))
     (snd (NewRouter (NewMux :: string Mux) S5_storage [])) ''/foo'' = Some (StatusCode 404) \<and>
   Router_ServeHTTP ServeHTTP
     (fst (NewRouter (NewMux :: string Mux) S5_storage []))
     (snd (NewRouter (NewMux :: string Mux) S5_storage [])) ''/foo'' \<noteq> Some (StatusCode 503)"
  by (simp add: Router_ServeHTTP_def NewRouter_def ServeHTTP_def Lookup_def findlongestmatch_eq
      NewMux_def GetBackend_def NotFound_def split: prod.splits)




text \<open>
  C6. Let the storage raise no terminal error and let \<open>apps\<close> be the table of the
  applications pass. The reload succeeds: the Router points to a new Mux, which is the
  empty Mux on which \<^verbatim>\<open>Handle\<close> was called for the routes whose application
  identifier is in \<open>apps\<close>, those only, in the order of the stream; the other routes are
  skipped.
\<close>

theorem unknown_backend_routes_skipped:
  assumes "Open (stor rt) = None" "loadApplications Parse (stor rt) = Inr apps"
    "Routes (stor rt) = Inr ri" "Err ri = None"
    and "K = length (filter (known_application apps) (Next ri))"
    and "J = length (filter (\<lambda>r. \<not> known_application apps r) (Next ri))"
  shows "ReloadRoutes newMux Handle Parse rt h =
     (rt\<lparr>mux := length h\<rparr>,
      h @ [foldl (register_route Handle apps) newMux (filter (known_application apps) (Next ri))]) \<and>
     K + J = length (Next ri)"
  using assms
  by (simp add: ReloadRoutes_def loadRoutes_def loadRoutes_loop_fresh sum_length_filter_compl)

theorem unknown_backend_routes_skipped_witness:
  "loadApplications Parse_example S5_storage = Inr [''B'' \<mapsto> ''http://b''] \<and>
   ReloadRoutes [] Handle_log Parse_example \<lparr>mux = 0, stor = S5_storage\<rparr> [[]] =
     (\<lparr>mux = 1, stor = S5_storage\<rparr>, [[], [(''/y'', False, ''http://b'')]])"
proof -
  let ?rt = "\<lparr>mux = 0, stor = S5_storage\<rparr>"
  let ?apps = "[''B'' \<mapsto> ''http://b'']"
  have 1: "Open (stor ?rt) = None" by (simp add: S5_storage_def)
  have 2: "loadApplications Parse_example (stor ?rt) = Inr ?apps"
    by (simp add: reload_example_simps)
  have 3: "Routes (stor ?rt) = Inr S5_routes" by (simp add: S5_storage_def)
  have 4: "Err S5_routes = None" by (simp add: S5_routes_def)
  have 5: "(1::nat) = length (filter (known_application ?apps) (Next S5_routes))"
    by (simp add: S5_routes_def known_application_def)
  have 6: "(1::nat) = length (filter (\<lambda>r. \<not> known_application ?apps r) (Next S5_routes))"
    by (simp add: S5_routes_def known_application_def)
  from unknown_backend_routes_skipped
         [where Parse = Parse_example and newMux = "[]" and Handle = Handle_log and h = "[[]]",
          OF 1 2 3 4 5 6] 2
  show ?thesis
    by (simp add: S5_routes_def known_application_def register_route_def Handle_log_def)
qed


end
